theory Spec2Isabelle
  imports Main "HOL-Library.Sublist"
begin

section \<open>Access levels (internal/access/level.go)\<close>

text \<open>
  \<open>Level\<close> is an \<open>int\<close> enumeration in the source (\<open>None = iota\<close>, \<open>ReadOnly\<close>,
  \<open>ReadWrite\<close>, \<open>Admin\<close>); the capability predicates compare the numeric value.
  The constructor for the source's \<open>None\<close> is called \<open>NoAccess\<close> because \<open>None\<close>
  is the constructor of \<open>option\<close>.
\<close>

datatype Level = NoAccess | ReadOnly | ReadWrite | Admin

fun level_num :: "Level \<Rightarrow> nat" where
  "level_num NoAccess = 0"
| "level_num ReadOnly = 1"
| "level_num ReadWrite = 2"
| "level_num Admin = 3"

definition CanRead :: "Level \<Rightarrow> bool" where
  "CanRead l = (level_num l \<ge> level_num ReadOnly)"

definition CanWrite :: "Level \<Rightarrow> bool" where
  "CanWrite l = (level_num l \<ge> level_num ReadWrite)"

definition CanAdmin :: "Level \<Rightarrow> bool" where
  "CanAdmin l = (level_num l \<ge> level_num Admin)"

definition CanDownload :: "Level \<Rightarrow> bool" where
  "CanDownload l = (level_num l \<ge> level_num ReadOnly)"

section \<open>Users (package access, UserInfo)\<close>

record UserInfo =
  Name :: string
  IsAdmin :: bool
  PublicKeyFP :: string
  IsAnonymous :: bool
  AnonymousName :: string
  RemoteAddr :: string

text \<open>A \<open>*UserInfo\<close> may be nil: it is a \<open>UserInfo option\<close>.\<close>

definition DisplayName :: "UserInfo option \<Rightarrow> string" where
  "DisplayName u =
     (case u of
        None \<Rightarrow> ''unknown''
      | Some v \<Rightarrow> if IsAnonymous v then AnonymousName v else Name v)"

section \<open>Library functions used by the resolver\<close>

text \<open>
  \<open>strings.TrimSpace\<close> removes leading and trailing white space as defined by Unicode.
  Go strings are byte sequences holding UTF-8, so the white-space runes are the six ASCII
  bytes below and the UTF-8 encodings of U+0085, U+00A0, U+1680, U+2000..U+200A, U+2028,
  U+2029, U+202F, U+205F and U+3000.
\<close>

definition ascii_space :: "char \<Rightarrow> bool" where
  "ascii_space c = (c \<in> {CHR 0x09, CHR 0x0A, CHR 0x0B, CHR 0x0C, CHR 0x0D, CHR '' ''})"

definition space2 :: "char \<Rightarrow> char \<Rightarrow> bool" where
  "space2 a b = (a = CHR 0xC2 \<and> (b = CHR 0x85 \<or> b = CHR 0xA0))"

definition space3 :: "char \<Rightarrow> char \<Rightarrow> char \<Rightarrow> bool" where
  "space3 a b c =
     ((a = CHR 0xE1 \<and> b = CHR 0x9A \<and> c = CHR 0x80) \<or>
      (a = CHR 0xE2 \<and> b = CHR 0x80 \<and>
         ((0x80 \<le> (of_char c :: nat) \<and> (of_char c :: nat) \<le> 0x8A) \<or>
          c = CHR 0xA8 \<or> c = CHR 0xA9 \<or> c = CHR 0xAF)) \<or>
      (a = CHR 0xE2 \<and> b = CHR 0x81 \<and> c = CHR 0x9F) \<or>
      (a = CHR 0xE3 \<and> b = CHR 0x80 \<and> c = CHR 0x80))"

fun TrimLeftSpace :: "string \<Rightarrow> string" where
  "TrimLeftSpace (a # b # c # rest) =
     (if ascii_space a then TrimLeftSpace (b # c # rest)
      else if space2 a b then TrimLeftSpace (c # rest)
      else if space3 a b c then TrimLeftSpace rest
      else a # b # c # rest)"
| "TrimLeftSpace [a, b] =
     (if ascii_space a then TrimLeftSpace [b]
      else if space2 a b then []
      else [a, b])"
| "TrimLeftSpace [a] = (if ascii_space a then [] else [a])"
| "TrimLeftSpace [] = []"

text \<open>The same scan from the end, on the reversed string (the encodings read backwards).\<close>

fun TrimLeftSpaceRev :: "string \<Rightarrow> string" where
  "TrimLeftSpaceRev (c # b # a # rest) =
     (if ascii_space c then TrimLeftSpaceRev (b # a # rest)
      else if space2 b c then TrimLeftSpaceRev (a # rest)
      else if space3 a b c then TrimLeftSpaceRev rest
      else c # b # a # rest)"
| "TrimLeftSpaceRev [c, b] =
     (if ascii_space c then TrimLeftSpaceRev [b]
      else if space2 b c then []
      else [c, b])"
| "TrimLeftSpaceRev [c] = (if ascii_space c then [] else [c])"
| "TrimLeftSpaceRev [] = []"

definition TrimSpace :: "string \<Rightarrow> string" where
  "TrimSpace s = rev (TrimLeftSpaceRev (rev (TrimLeftSpace s)))"

text \<open>\<open>filepath.Base\<close> with \<open>/\<close> as the separator.\<close>

definition Base :: "string \<Rightarrow> string" where
  "Base path =
     (if path = [] then ''.''
      else let stripped = rev (dropWhile (\<lambda>c. c = CHR ''/'') (rev path));
               elem = rev (takeWhile (\<lambda>c. c \<noteq> CHR ''/'') (rev stripped))
           in if elem = [] then ''/'' else elem)"

text \<open>
  The glob matcher is the third-party package \<open>doublestar\<close>; its two entry points are
  parameters of the model. Each returns \<open>(matched, err)\<close> and the resolver drops the error,
  so only the boolean is kept.
\<close>

record Doublestar =
  Match :: "string \<Rightarrow> string \<Rightarrow> bool"
  PathMatch :: "string \<Rightarrow> string \<Rightarrow> bool"

section \<open>The access resolver (package access, Resolver)\<close>

record Rule =
  Pattern :: string
  RuleLevel :: Level

text \<open>
  \<open>UserRules\<close> is a \<open>map[string][]Rule\<close>; \<open>Admins\<close> is a \<open>map[string]bool\<close> that is
  only ever indexed, so a missing key reads as \<open>false\<close>.
\<close>

record Resolver =
  AnonymousAccess :: Level
  PublicRules :: "Rule list"
  UserRules :: "string \<rightharpoonup> Rule list"
  Admins :: "string \<Rightarrow> bool"

definition matchPattern :: "Doublestar \<Rightarrow> string \<Rightarrow> string \<Rightarrow> string \<Rightarrow> bool" where
  "matchPattern G pattern0 dbPath0 dbAlias0 =
     (let pattern = TrimSpace pattern0;
          dbPath = TrimSpace dbPath0;
          dbAlias = TrimSpace dbAlias0
      in if dbAlias \<noteq> [] \<and> pattern = dbAlias then True
         else if dbAlias \<noteq> [] \<and> Match G pattern dbAlias then True
         else if dbPath \<noteq> [] \<and> pattern = dbPath then True
         else if dbPath \<noteq> [] \<and> Match G pattern dbPath then True
         else if dbPath \<noteq> [] \<and> Match G pattern (Base dbPath) then True
         else if CHR ''*'' \<in> set pattern \<and> PathMatch G pattern dbPath then True
         else False)"

fun matchRules :: "Doublestar \<Rightarrow> Rule list \<Rightarrow> string \<Rightarrow> string \<Rightarrow> Level" where
  "matchRules G [] dbPath dbAlias = NoAccess"
| "matchRules G (rule # rules) dbPath dbAlias =
     (if matchPattern G (Pattern rule) dbPath dbAlias then RuleLevel rule
      else matchRules G rules dbPath dbAlias)"

text \<open>Steps 3 and 4 of \<open>Resolve\<close>: the public rules, then the anonymous default.\<close>

definition resolve_public :: "Doublestar \<Rightarrow> Resolver \<Rightarrow> string \<Rightarrow> string \<Rightarrow> Level" where
  "resolve_public G r dbPath dbAlias =
     (let level = matchRules G (PublicRules r) dbPath dbAlias
      in if level \<noteq> NoAccess then level else AnonymousAccess r)"

definition Resolve :: "Doublestar \<Rightarrow> Resolver \<Rightarrow> UserInfo option \<Rightarrow> string \<Rightarrow> string \<Rightarrow> Level" where
  "Resolve G r user dbPath dbAlias =
     (case user of
        None \<Rightarrow> resolve_public G r dbPath dbAlias
      | Some u \<Rightarrow>
          if IsAdmin u then Admin
          else if \<not> IsAnonymous u \<and> Admins r (Name u) then Admin
          else if \<not> IsAnonymous u then
            (case UserRules r (Name u) of
               None \<Rightarrow> resolve_public G r dbPath dbAlias
             | Some rules \<Rightarrow>
                 (let level = matchRules G rules dbPath dbAlias
                  in if level \<noteq> NoAccess then level
                     else resolve_public G r dbPath dbAlias))
          else resolve_public G r dbPath dbAlias)"

section \<open>Go maps and their iteration order\<close>

text \<open>
  A Go \<open>map[string]V\<close> is a partial function from keys to values. A \<open>for k, v := range m\<close>
  loop visits the entries in an order the runtime picks afresh for every loop, so each loop
  of the source takes the order as a parameter: a list of keys. Keys that are not in the
  map are skipped. An order is proper when it lists every key of the map exactly once.
\<close>

definition range_entries :: "(string \<rightharpoonup> 'v) \<Rightarrow> string list \<Rightarrow> (string \<times> 'v) list" where
  "range_entries m ks = List.map_filter (\<lambda>k. map_option (Pair k) (m k)) ks"

definition proper_order :: "(string \<rightharpoonup> 'v) \<Rightarrow> string list \<Rightarrow> bool" where
  "proper_order m ks = (distinct ks \<and> set ks = dom m)"

section \<open>Discovery (package database, Discovery)\<close>

text \<open>\<open>db_Source\<close> is the index of the configured source the file came from.\<close>

record DiscoveredDatabase =
  db_Path :: string
  db_Alias :: string
  db_Description :: string
  db_Size :: int
  db_ModTime :: int
  db_Source :: nat

text \<open>
  Of the fields of \<open>Discovery\<close> only the snapshot \<open>databases\<close> is state the functions
  below read or write; the watcher, the callbacks and the mutex are left out.
\<close>

record Discovery =
  databases :: "string \<rightharpoonup> DiscoveredDatabase"

definition GetDatabases :: "Discovery \<Rightarrow> string list \<Rightarrow> DiscoveredDatabase list" where
  "GetDatabases d ks = map snd (range_entries (databases d) ks)"

definition GetDatabase :: "Discovery \<Rightarrow> string list \<Rightarrow> string \<Rightarrow> DiscoveredDatabase option" where
  "GetDatabase d ks pathOrAlias =
     (case databases d pathOrAlias of
        Some db \<Rightarrow> Some db
      | None \<Rightarrow> find (\<lambda>db. db_Alias db = pathOrAlias) (map snd (range_entries (databases d) ks)))"

text \<open>
  \<open>scan\<close> calls \<open>discoverSource\<close> once per configured source; that function reads the file
  system, so its results are the parameter \<open>founds\<close>: per source either \<open>None\<close> (an error,
  which \<open>scan\<close> logs and skips) or the files found, in the order found.
\<close>

definition store_found ::
  "(string \<rightharpoonup> DiscoveredDatabase) \<Rightarrow> DiscoveredDatabase list \<Rightarrow> (string \<rightharpoonup> DiscoveredDatabase)" where
  "store_found m found = foldl (\<lambda>acc db. acc(db_Path db \<mapsto> db)) m found"

definition collect_sources ::
  "DiscoveredDatabase list option list \<Rightarrow> (string \<rightharpoonup> DiscoveredDatabase)" where
  "collect_sources founds =
     foldl (\<lambda>acc f. case f of None \<Rightarrow> acc | Some found \<Rightarrow> store_found acc found) Map.empty founds"

definition scan_added ::
  "(string \<rightharpoonup> DiscoveredDatabase) \<Rightarrow> (string \<rightharpoonup> DiscoveredDatabase) \<Rightarrow> string list
     \<Rightarrow> DiscoveredDatabase list" where
  "scan_added old newDatabases kn =
     map snd (filter (\<lambda>(path, db). old path = None) (range_entries newDatabases kn))"

definition scan_removed ::
  "(string \<rightharpoonup> DiscoveredDatabase) \<Rightarrow> (string \<rightharpoonup> DiscoveredDatabase) \<Rightarrow> string list
     \<Rightarrow> DiscoveredDatabase list" where
  "scan_removed old newDatabases ko =
     map snd (filter (\<lambda>(path, db). newDatabases path = None) (range_entries old ko))"

text \<open>
  \<open>scan\<close> returns the new state and the notification it hands to the callbacks, if any:
  the callbacks run only when one of the two lists is non-empty. \<open>kn\<close> and \<open>ko\<close> are the
  orders of the loops over the new and the old snapshot.
\<close>

definition scan ::
  "Discovery \<Rightarrow> DiscoveredDatabase list option list \<Rightarrow> string list \<Rightarrow> string list
     \<Rightarrow> Discovery \<times> (DiscoveredDatabase list \<times> DiscoveredDatabase list) option" where
  "scan d founds kn ko =
     (let newDatabases = collect_sources founds;
          added = scan_added (databases d) newDatabases kn;
          removed = scan_removed (databases d) newDatabases ko
      in (d\<lparr>databases := newDatabases\<rparr>,
          if added \<noteq> [] \<or> removed \<noteq> [] then Some (added, removed) else None))"

text \<open>
  Vocabulary for the properties of snapshots: \<open>path_keyed\<close> says that every key is the
  path of the database stored under it; \<open>found_files\<close> lists the files of all sources
  that did not fail; \<open>collect_from\<close> is the loop of \<open>collect_sources\<close> started from any
  map.
\<close>

definition path_keyed :: "(string \<rightharpoonup> DiscoveredDatabase) \<Rightarrow> bool" where
  "path_keyed m = (\<forall>p db. m p = Some db \<longrightarrow> db_Path db = p)"

definition found_files :: "DiscoveredDatabase list option list \<Rightarrow> DiscoveredDatabase list" where
  "found_files founds = concat (map (\<lambda>f. case f of None \<Rightarrow> [] | Some found \<Rightarrow> found) founds)"

definition collect_from ::
  "(string \<rightharpoonup> DiscoveredDatabase) \<Rightarrow> DiscoveredDatabase list option list \<Rightarrow> (string \<rightharpoonup> DiscoveredDatabase)" where
  "collect_from acc founds =
     foldl (\<lambda>acc f. case f of None \<Rightarrow> acc | Some found \<Rightarrow> store_found acc found) acc founds"

section \<open>The lock manager (package database, LockManager)\<close>

text \<open>Times are points on a clock, here natural numbers; \<open>time.Now()\<close> is a parameter.\<close>

record LockInfo =
  HeldBy :: string
  SessionID :: string
  Since :: nat

record LockError =
  err_Database :: string
  err_HeldBy :: string
  err_Since :: nat

record LockManager =
  locks :: "string \<rightharpoonup> LockInfo"

definition NewLockManager :: LockManager where
  "NewLockManager = \<lparr>locks = Map.empty\<rparr>"

text \<open>\<open>TryLock\<close> returns the error (\<open>None\<close> for the source's nil) and the state after the call.\<close>

definition TryLock ::
  "LockManager \<Rightarrow> string \<Rightarrow> string \<Rightarrow> string \<Rightarrow> nat \<Rightarrow> LockError option \<times> LockManager" where
  "TryLock lm dbPath holder sessionID now =
     (case locks lm dbPath of
        Some info \<Rightarrow>
          if SessionID info = sessionID then (None, lm)
          else (Some \<lparr>err_Database = dbPath, err_HeldBy = HeldBy info, err_Since = Since info\<rparr>, lm)
      | None \<Rightarrow>
          (None, lm\<lparr>locks := (locks lm)(dbPath \<mapsto>
                     \<lparr>HeldBy = holder, SessionID = sessionID, Since = now\<rparr>)\<rparr>))"

definition Unlock :: "LockManager \<Rightarrow> string \<Rightarrow> string \<Rightarrow> LockManager" where
  "Unlock lm dbPath sessionID =
     (case locks lm dbPath of
        Some info \<Rightarrow>
          if SessionID info = sessionID then lm\<lparr>locks := (locks lm)(dbPath := None)\<rparr> else lm
      | None \<Rightarrow> lm)"

section \<open>The read/write classifier (internal/database/manager.go)\<close>

definition upper_byte :: "char \<Rightarrow> char" where
  "upper_byte c =
     (if (of_char (CHR ''a'') :: nat) \<le> of_char c \<and> (of_char c :: nat) \<le> of_char (CHR ''z'')
      then char_of ((of_char c :: nat) - 32) else c)"

definition query_space :: "char \<Rightarrow> bool" where
  "query_space c = (c = CHR '' '' \<or> c = CHR 0x09 \<or> c = CHR 0x0A \<or> c = CHR 0x0D)"

text \<open>
  \<open>trimToUpper\<close>: skip the leading blanks, keep at most 20 bytes, map \<open>a\<close>..\<open>z\<close> to
  \<open>A\<close>..\<open>Z\<close>.
\<close>

definition trimToUpper :: "string \<Rightarrow> string" where
  "trimToUpper s = map upper_byte (take 20 (dropWhile query_space s))"

definition hasPrefix :: "string \<Rightarrow> string \<Rightarrow> bool" where
  "hasPrefix s pre = (length s \<ge> length pre \<and> take (length pre) s = pre)"

definition isReadOnlyQuery :: "string \<Rightarrow> bool" where
  "isReadOnlyQuery query =
     (let upper = trimToUpper query
      in hasPrefix upper ''SELECT'' \<or> hasPrefix upper ''PRAGMA'' \<or>
         hasPrefix upper ''EXPLAIN'' \<or> hasPrefix upper ''WITH'')"

datatype query_class = read_only | writing

definition classify :: "string \<Rightarrow> query_class" where
  "classify sql = (if isReadOnlyQuery sql then read_only else writing)"


section \<open>Identifier quoting (package database, quoteIdentifier)\<close>

definition dquote :: char where
  "dquote = CHR 0x22"

text \<open>\<open>strings.ReplaceAll(name, "\"", "\"\"")\<close>: every double quote becomes two.\<close>

definition double_quotes :: "string \<Rightarrow> string" where
  "double_quotes name = concat (map (\<lambda>c. if c = dquote then [dquote, dquote] else [c]) name)"

definition quoteIdentifier :: "string \<Rightarrow> string" where
  "quoteIdentifier name = [dquote] @ double_quotes name @ [dquote]"

text \<open>
  Modelled from the spec: the repository has no function that reads a quoted identifier
  back (the SQL engine does that). \<open>unquoteIdentifier\<close> is the inverse the specification
  describes: strip the outer quotes, then collapse every doubled quote, left to right.
  A string that is not wrapped in quotes has no reading.
\<close>

fun collapse_quotes :: "string \<Rightarrow> string" where
  "collapse_quotes (a # b # rest) =
     (if a = dquote \<and> b = dquote then dquote # collapse_quotes rest
      else a # collapse_quotes (b # rest))"
| "collapse_quotes [a] = [a]"
| "collapse_quotes [] = []"

definition unquoteIdentifier :: "string \<Rightarrow> string option" where
  "unquoteIdentifier s =
     (if length s \<ge> 2 \<and> hd s = dquote \<and> last s = dquote
      then Some (collapse_quotes (butlast (tl s))) else None)"

section \<open>Connections and the SQL engine\<close>

record Connection =
  conn_Path :: string
  conn_ReadOnly :: bool

text \<open>
  The SQL engine is outside the program. Every contact with it is recorded in a log that
  the model carries along: \<open>EngineOpen path ro\<close> for opening (and pinging) a database file,
  \<open>EngineStatement path sql\<close> for handing a statement to an open connection. What the
  engine answers is a parameter; it may depend on everything that happened before.
\<close>

datatype engine_event = EngineOpen string bool | EngineStatement string string

record 'r Engine =
  engine_open :: "engine_event list \<Rightarrow> string \<Rightarrow> bool \<Rightarrow> string option"
  engine_run :: "engine_event list \<Rightarrow> Connection \<Rightarrow> string \<Rightarrow> string + 'r"

datatype error =
    DatabaseNotFound string
  | WritePermissionRequired
  | AccessDeniedTo string
  | OpenFailed string
  | Locked LockError
  | EngineError string

text \<open>
  \<open>DatabaseNotFound p\<close> is \<open>"database not found: p"\<close>, \<open>WritePermissionRequired\<close> is
  \<open>"access denied: write permission required"\<close>, \<open>AccessDeniedTo p\<close> is
  \<open>"access denied to database: p"\<close>, \<open>OpenFailed e\<close> is \<open>"failed to open database: e"\<close>.
\<close>

text \<open>\<open>Open\<close>: \<open>sql.Open\<close> followed by \<open>Ping\<close>; the answer is an error text or a connection.\<close>

definition Open ::
  "'r Engine \<Rightarrow> engine_event list \<Rightarrow> string \<Rightarrow> bool \<Rightarrow> (string + Connection) \<times> engine_event list" where
  "Open E elog path ro =
     ((case engine_open E elog path ro of
         Some e \<Rightarrow> Inl e
       | None \<Rightarrow> Inr \<lparr>conn_Path = path, conn_ReadOnly = ro\<rparr>),
      elog @ [EngineOpen path ro])"

text \<open>
  \<open>Query\<close> (internal/database/query.go) passes the statement to the connection, through
  \<open>conn.Query\<close> or \<open>conn.Execute\<close>; either way the engine receives it.
\<close>

definition Query ::
  "'r Engine \<Rightarrow> engine_event list \<Rightarrow> Connection \<Rightarrow> string \<Rightarrow> (string + 'r) \<times> engine_event list" where
  "Query E elog conn query =
     (engine_run E elog conn query, elog @ [EngineStatement (conn_Path conn) query])"

text \<open>\<open>Delete\<close> (internal/database/query.go).\<close>

definition Delete ::
  "'r Engine \<Rightarrow> engine_event list \<Rightarrow> Connection \<Rightarrow> string \<Rightarrow> string \<Rightarrow> (string + 'r) \<times> engine_event list" where
  "Delete E elog conn tableName wher =
     (let query = ''DELETE FROM '' @ quoteIdentifier tableName;
          query' = (if wher \<noteq> [] then query @ '' WHERE '' @ wher else query)
      in Query E elog conn query')"

section \<open>The database manager (internal/database/manager.go)\<close>

text \<open>\<open>engine_log\<close> is not a field of the source: it is the record of engine contacts.\<close>

record Manager =
  discovery :: Discovery
  connections :: "string \<rightharpoonup> Connection"
  lockManager :: LockManager
  resolver :: Resolver
  engine_log :: "engine_event list"




definition GetAccessLevel ::
  "Doublestar \<Rightarrow> Manager \<Rightarrow> string list \<Rightarrow> UserInfo option \<Rightarrow> string \<Rightarrow> Level" where
  "GetAccessLevel G m ks user pathOrAlias =
     (case GetDatabase (discovery m) ks pathOrAlias of
        None \<Rightarrow> NoAccess
      | Some db \<Rightarrow> Resolve G (resolver m) user (db_Path db) (db_Alias db))"

text \<open>
  \<open>OpenConnection\<close> looks the database up twice (once itself, once inside
  \<open>GetAccessLevel\<close>), hence two iteration orders.
\<close>

definition OpenConnection ::
  "'r Engine \<Rightarrow> Doublestar \<Rightarrow> Manager \<Rightarrow> string list \<Rightarrow> string list \<Rightarrow> string
     \<Rightarrow> UserInfo option \<Rightarrow> (error + Connection) \<times> Manager" where
  "OpenConnection E G m k1 k2 pathOrAlias user =
     (case GetDatabase (discovery m) k1 pathOrAlias of
        None \<Rightarrow> (Inl (DatabaseNotFound pathOrAlias), m)
      | Some db \<Rightarrow>
          let level = GetAccessLevel G m k2 user pathOrAlias
          in if \<not> CanRead level then (Inl (AccessDeniedTo pathOrAlias), m)
             else (case connections m (db_Path db) of
                     Some conn \<Rightarrow> (Inr conn, m)
                   | None \<Rightarrow>
                       (case Open E (engine_log m) (db_Path db) (\<not> CanWrite level) of
                          (Inl e, elog') \<Rightarrow> (Inl (OpenFailed e), m\<lparr>engine_log := elog'\<rparr>)
                        | (Inr conn, elog') \<Rightarrow>
                            (Inr conn, m\<lparr>connections := (connections m)(db_Path db \<mapsto> conn),
                                         engine_log := elog'\<rparr>))))"

text \<open>
  \<open>ExecuteQuery\<close>. The four iteration orders belong to its own lookup, the one in
  \<open>GetAccessLevel\<close> and the two in \<open>OpenConnection\<close>. The deferred \<open>Unlock\<close> runs after
  \<open>Query\<close> on both outcomes. Writing the engine's busy errors to the program log is left out.
\<close>

definition ExecuteQuery ::
  "'r Engine \<Rightarrow> Doublestar \<Rightarrow> Manager \<Rightarrow> string list \<Rightarrow> string list \<Rightarrow> string list \<Rightarrow> string list
     \<Rightarrow> nat \<Rightarrow> string \<Rightarrow> UserInfo option \<Rightarrow> string \<Rightarrow> string \<Rightarrow> (error + 'r) \<times> Manager" where
  "ExecuteQuery E G m k1 k2 k3 k4 now pathOrAlias user sessionID query =
     (case GetDatabase (discovery m) k1 pathOrAlias of
        None \<Rightarrow> (Inl (DatabaseNotFound pathOrAlias), m)
      | Some db \<Rightarrow>
          let level = GetAccessLevel G m k2 user pathOrAlias
          in if \<not> isReadOnlyQuery query \<and> \<not> CanWrite level then (Inl WritePermissionRequired, m)
             else (case OpenConnection E G m k3 k4 pathOrAlias user of
                     (Inl err, m1) \<Rightarrow> (Inl err, m1)
                   | (Inr conn, m1) \<Rightarrow>
                       if \<not> isReadOnlyQuery query then
                         (case TryLock (lockManager m1) (db_Path db) (DisplayName user) sessionID now of
                            (Some lockErr, lm) \<Rightarrow> (Inl (Locked lockErr), m1\<lparr>lockManager := lm\<rparr>)
                          | (None, lm) \<Rightarrow>
                              (case Query E (engine_log m1) conn query of
                                 (res, elog') \<Rightarrow>
                                   ((case res of Inl e \<Rightarrow> Inl (EngineError e) | Inr r \<Rightarrow> Inr r),
                                    m1\<lparr>lockManager := Unlock lm (db_Path db) sessionID,
                                       engine_log := elog'\<rparr>)))
                       else
                         (case Query E (engine_log m1) conn query of
                            (res, elog') \<Rightarrow>
                              ((case res of Inl e \<Rightarrow> Inl (EngineError e) | Inr r \<Rightarrow> Inr r),
                               m1\<lparr>engine_log := elog'\<rparr>))))"

section \<open>The command line (package cli)\<close>

text \<open>
  \<open>CommandContext\<close>: the arguments after the command word, the user (nil when the
  transport supplied none), the id of the session (\<open>SessionInfo\<close>, nil in local mode),
  whether an SSH session is attached and whether it carries a session manager, and the
  exit code. The output streams are left out: nothing reads them back.
\<close>

record CommandContext =
  Args :: "string list"
  User :: "UserInfo option"
  SessionInfo :: "string option"
  has_Session :: bool
  has_SessionMgr :: bool
  exitCode :: int

definition Exit :: "CommandContext \<Rightarrow> int \<Rightarrow> CommandContext" where
  "Exit c code = c\<lparr>exitCode := code\<rparr>"

definition GetSessionID :: "CommandContext \<Rightarrow> string" where
  "GetSessionID c = (case SessionInfo c of Some sid \<Rightarrow> sid | None \<Rightarrow> [])"

fun flag_value :: "string \<Rightarrow> string \<Rightarrow> string list \<Rightarrow> string" where
  "flag_value pre shortPre [] = []"
| "flag_value pre shortPre (arg # args) =
     (if prefix pre arg then drop (length pre) arg
      else if prefix shortPre arg then drop (length shortPre) arg
      else flag_value pre shortPre args)"

definition GetFlag :: "CommandContext \<Rightarrow> string \<Rightarrow> string" where
  "GetFlag c name = flag_value (''--'' @ name @ ''='') (''-'' @ name @ ''='') (Args c)"

definition HasFlag :: "CommandContext \<Rightarrow> string \<Rightarrow> bool" where
  "HasFlag c name = list_ex (\<lambda>arg. arg = ''--'' @ name \<or> arg = ''-'' @ name) (Args c)"

definition GetPositionalArgs :: "CommandContext \<Rightarrow> string list" where
  "GetPositionalArgs c = filter (\<lambda>arg. \<not> prefix ''-'' arg) (Args c)"

definition RequireWrite ::
  "Doublestar \<Rightarrow> Manager \<Rightarrow> string list \<Rightarrow> CommandContext \<Rightarrow> string \<Rightarrow> bool \<times> CommandContext" where
  "RequireWrite G m ks c dbPath =
     (let level = GetAccessLevel G m ks (User c) dbPath
      in if \<not> CanWrite level then (False, Exit c 1) else (True, c))"

definition RequireAdmin :: "CommandContext \<Rightarrow> bool \<times> CommandContext" where
  "RequireAdmin c =
     (case User c of
        None \<Rightarrow> (False, Exit c 1)
      | Some u \<Rightarrow> if \<not> IsAdmin u then (False, Exit c 1) else (True, c))"

text \<open>
  An audit entry as \<open>RecordAuditSimple\<close> receives it: session id, action, database, table.
  The handler has a history store or not (\<open>has_historyStore\<close>).
\<close>

type_synonym audit_entry = "string \<times> string \<times> string \<times> string"

record Handler =
  has_historyStore :: bool

text \<open>
  \<open>cmdDelete\<close> returns the context, the manager and the audit entries written. \<open>k1\<close> is
  the iteration order of the lookup in \<open>RequireWrite\<close>, \<open>k2\<close> and \<open>k3\<close> those of
  \<open>OpenConnection\<close>.
\<close>

definition cmdDelete ::
  "'r Engine \<Rightarrow> Doublestar \<Rightarrow> Handler \<Rightarrow> Manager \<Rightarrow> string list \<Rightarrow> string list \<Rightarrow> string list
     \<Rightarrow> CommandContext \<Rightarrow> CommandContext \<times> Manager \<times> audit_entry list" where
  "cmdDelete E G h m k1 k2 k3 c =
     (case GetPositionalArgs c of
        dbName # tableName # _ \<Rightarrow>
          (case RequireWrite G m k1 c dbName of
             (False, c1) \<Rightarrow> (c1, m, [])
           | (True, c1) \<Rightarrow>
               if \<not> HasFlag c1 ''confirm'' \<and> \<not> HasFlag c1 ''force'' then (Exit c1 1, m, [])
               else let wher = GetFlag c1 ''where''
                    in if wher = [] then (Exit c1 1, m, [])
                       else (case OpenConnection E G m k2 k3 dbName (User c1) of
                               (Inl err, m1) \<Rightarrow> (Exit c1 1, m1, [])
                             | (Inr conn, m1) \<Rightarrow>
                                 (case Delete E (engine_log m1) conn tableName wher of
                                    (Inl err, elog') \<Rightarrow> (Exit c1 1, m1\<lparr>engine_log := elog'\<rparr>, [])
                                  | (Inr result, elog') \<Rightarrow>
                                      (c1, m1\<lparr>engine_log := elog'\<rparr>,
                                       if has_historyStore h
                                       then [(GetSessionID c1, ''DELETE'', dbName, tableName)]
                                       else []))))
      | _ \<Rightarrow> (Exit c 1, m, []))"

text \<open>
  The admin commands. \<open>fetch_ok\<close> says whether the history store answered the listing
  query. Printing is left out.
\<close>

definition cmdSessions :: "CommandContext \<Rightarrow> CommandContext" where
  "cmdSessions c =
     (case RequireAdmin c of
        (False, c1) \<Rightarrow> c1
      | (True, c1) \<Rightarrow>
          if \<not> has_Session c1 then Exit c1 1
          else if \<not> has_SessionMgr c1 then Exit c1 1
          else c1)"

definition cmdHistory :: "Handler \<Rightarrow> bool \<Rightarrow> CommandContext \<Rightarrow> CommandContext" where
  "cmdHistory h fetch_ok c =
     (case RequireAdmin c of
        (False, c1) \<Rightarrow> c1
      | (True, c1) \<Rightarrow>
          if \<not> has_historyStore h then Exit c1 1
          else if \<not> fetch_ok then Exit c1 1
          else c1)"

definition cmdAudit :: "Handler \<Rightarrow> bool \<Rightarrow> CommandContext \<Rightarrow> CommandContext" where
  "cmdAudit h fetch_ok c =
     (case RequireAdmin c of
        (False, c1) \<Rightarrow> c1
      | (True, c1) \<Rightarrow>
          if \<not> has_historyStore h then Exit c1 1
          else if \<not> fetch_ok then Exit c1 1
          else c1)"

definition cmdReloadConfig :: "CommandContext \<Rightarrow> CommandContext" where
  "cmdReloadConfig c =
     (case RequireAdmin c of
        (False, c1) \<Rightarrow> c1
      | (True, c1) \<Rightarrow> if \<not> has_Session c1 then Exit c1 1 else c1)"

section \<open>Example data\<close>

text \<open>
  Concrete values for the examples below. \<open>exact_glob\<close> is a matcher under which a pattern
  matches only itself, as any glob matcher does on a pattern without metacharacters.
\<close>

definition exact_glob :: Doublestar where
  "exact_glob = \<lparr>Match = (\<lambda>pattern name. pattern = name), PathMatch = (\<lambda>pattern name. pattern = name)\<rparr>"

definition ex_db_a :: DiscoveredDatabase where
  "ex_db_a = \<lparr>db_Path = ''/d/x.db'', db_Alias = ''x'', db_Description = [], db_Size = 0,
              db_ModTime = 0, db_Source = 0\<rparr>"

definition ex_db_b :: DiscoveredDatabase where
  "ex_db_b = \<lparr>db_Path = ''/e/x.db'', db_Alias = ''x'', db_Description = [], db_Size = 0,
              db_ModTime = 0, db_Source = 0\<rparr>"

definition ex_user :: "string \<Rightarrow> bool \<Rightarrow> UserInfo" where
  "ex_user name admin = \<lparr>Name = name, IsAdmin = admin, PublicKeyFP = [], IsAnonymous = False,
     AnonymousName = [], RemoteAddr = []\<rparr>"


definition ex_resolver_admins :: Resolver where
  "ex_resolver_admins = \<lparr>AnonymousAccess = NoAccess, PublicRules = [], UserRules = Map.empty,
     Admins = (\<lambda>n. n = ''root'')\<rparr>"

definition ex_anon :: UserInfo where
  "ex_anon = \<lparr>Name = ''anon'', IsAdmin = False, PublicKeyFP = [], IsAnonymous = True,
     AnonymousName = [], RemoteAddr = []\<rparr>"

definition ex_resolver_protected :: Resolver where
  "ex_resolver_protected = \<lparr>AnonymousAccess = ReadOnly,
     PublicRules = [\<lparr>Pattern = ''protected'', RuleLevel = NoAccess\<rparr>],
     UserRules = Map.empty, Admins = (\<lambda>n. False)\<rparr>"

definition ex_locked :: LockManager where
  "ex_locked = \<lparr>locks = [''/d/x.db'' \<mapsto> \<lparr>HeldBy = ''alice'', SessionID = ''s1'', Since = 5\<rparr>]\<rparr>"

definition ex_db_test :: DiscoveredDatabase where
  "ex_db_test = \<lparr>db_Path = ''/data/test.db'', db_Alias = ''test'', db_Description = [],
     db_Size = 0, db_ModTime = 0, db_Source = 0\<rparr>"

definition ex_resolver_reader :: Resolver where
  "ex_resolver_reader = \<lparr>AnonymousAccess = NoAccess, PublicRules = [],
     UserRules = [''reader'' \<mapsto> [\<lparr>Pattern = ''test'', RuleLevel = ReadOnly\<rparr>]],
     Admins = (\<lambda>n. n = ''root'')\<rparr>"

definition ex_manager_test :: Manager where
  "ex_manager_test = \<lparr>discovery = \<lparr>databases = [''/data/test.db'' \<mapsto> ex_db_test]\<rparr>,
     connections = Map.empty, lockManager = NewLockManager, resolver = ex_resolver_reader,
     engine_log = []\<rparr>"

definition ex_engine :: "nat Engine" where
  "ex_engine = \<lparr>engine_open = (\<lambda>elog path ro. None), engine_run = (\<lambda>elog conn query. Inr 1)\<rparr>"

definition ex_context :: "string list \<Rightarrow> UserInfo option \<Rightarrow> CommandContext" where
  "ex_context args user = \<lparr>Args = args, User = user, SessionInfo = Some ''s1'',
     has_Session = True, has_SessionMgr = True, exitCode = 0\<rparr>"

definition ex_handler :: Handler where
  "ex_handler = \<lparr>has_historyStore = True\<rparr>"

definition ex_snapshot :: Discovery where
  "ex_snapshot = fst (scan \<lparr>databases = Map.empty\<rparr> [Some [ex_db_a, ex_db_b]]
                        [''/d/x.db'', ''/e/x.db''] [])"

definition ex_rescan :: "DiscoveredDatabase list option list" where
  "ex_rescan = [Some [ex_db_b, ex_db_test]]"

section \<open>Properties of the classifier\<close>





text \<open>
  The classifier at the edges of that reading: leading blanks and lower case are accepted;
  a vertical tab is not among the bytes skipped, so a statement behind one is \<open>writing\<close>;
  a \<open>WITH\<close> statement that ends in a \<open>DELETE\<close> is \<open>read_only\<close>.
\<close>

lemma classify_examples:
  "classify ''  select 1'' = read_only"
  "classify (CHR 0x0B # ''SELECT 1'') = writing"
  "classify ''WITH x AS (SELECT 1) DELETE FROM t'' = read_only"
  "classify ''DELETE FROM users'' = writing"
  by code_simp+

section \<open>Properties of identifier quoting\<close>

lemma collapse_quotes_other:
  "a \<noteq> dquote \<Longrightarrow> collapse_quotes (a # xs) = a # collapse_quotes xs"
  by (cases xs) simp_all

lemma collapse_double_quotes: "collapse_quotes (double_quotes n) = n"
  by (induction n) (simp_all add: double_quotes_def collapse_quotes_other)

lemma unquote_quoteIdentifier: "unquoteIdentifier (quoteIdentifier n) = Some n"
  by (simp add: unquoteIdentifier_def quoteIdentifier_def collapse_double_quotes)

text \<open>
  C7. For every identifier \<open>n\<close> without a NUL byte, un-quoting the quoted form (stripping
  the outer quotes and collapsing the doubled quotes) gives back exactly \<open>n\<close>. The proof
  does not need the restriction: it holds for every byte string.
\<close>

theorem quoteIdentifier_roundtrip:
  assumes "CHR 0x00 \<notin> set n"
  shows "unquoteIdentifier (quoteIdentifier n) = Some n"
  by (rule unquote_quoteIdentifier)

theorem quoteIdentifier_roundtrip_witness:
  "CHR 0x00 \<notin> set [CHR ''a'', dquote, CHR ''b''] \<and>
   quoteIdentifier [CHR ''a'', dquote, CHR ''b'']
     = [dquote, CHR ''a'', dquote, dquote, CHR ''b'', dquote] \<and>
   unquoteIdentifier [dquote, CHR ''a'', dquote, dquote, CHR ''b'', dquote]
     = Some [CHR ''a'', dquote, CHR ''b'']"
proof -
  have nul: "CHR 0x00 \<notin> set [CHR ''a'', dquote, CHR ''b'']"
    by (simp add: dquote_def)
  have q: "quoteIdentifier [CHR ''a'', dquote, CHR ''b'']
             = [dquote, CHR ''a'', dquote, dquote, CHR ''b'', dquote]"
    by (simp add: quoteIdentifier_def double_quotes_def dquote_def)
  show ?thesis using nul q quoteIdentifier_roundtrip [OF nul] by simp
qed

section \<open>Properties of the resolver, the lock manager and the commands\<close>


lemma range_entries_Nil: "range_entries m [] = []"
  by (simp add: range_entries_def)

lemma range_entries_Cons:
  "range_entries m (k # ks) =
     (case m k of None \<Rightarrow> range_entries m ks | Some v \<Rightarrow> (k, v) # range_entries m ks)"
  by (simp add: range_entries_def split: option.splits)

lemma set_range_entries: "set (range_entries m ks) = {(k, v). k \<in> set ks \<and> m k = Some v}"
  by (induction ks) (auto simp: range_entries_Nil range_entries_Cons split: option.splits)

lemma set_GetDatabases: "set (GetDatabases d ks) = {db. \<exists>k \<in> set ks. databases d k = Some db}"
  by (force simp: GetDatabases_def set_range_entries)

lemma set_GetDatabases_proper:
  "proper_order (databases d) ks \<Longrightarrow> set (GetDatabases d ks) = ran (databases d)"
  by (auto simp: set_GetDatabases proper_order_def ran_def)




lemma resolve_public_NoAccess:
  "matchRules G (PublicRules r) dbPath dbAlias = NoAccess \<Longrightarrow>
   resolve_public G r dbPath dbAlias = AnonymousAccess r"
  by (simp add: resolve_public_def)

lemma TrimSpace_protected: "TrimSpace ''protected'' = ''protected''"
  by (simp add: TrimSpace_def ascii_space_def space2_def space3_def)

text \<open>
  C3. The claim is that a public rule of level None that matches the database makes
  \<open>Resolve\<close> answer None for an anonymous or absent user, even when the anonymous default
  is higher. The code does not do that: \<open>matchRules\<close> answers None both for "no rule
  matches" and for "the matching rule says None", and \<open>Resolve\<close> reads None as "no
  match". At the input of the repository's own test (default \<open>ReadOnly\<close>, public rule
  \<open>protected\<close> at None) the rule matches, and the answer is \<open>ReadOnly\<close>, for every glob
  matcher.
\<close>

theorem public_None_rule_falls_through:
  "matchPattern G ''protected'' ''/data/protected.db'' ''protected'' \<and>
   matchRules G (PublicRules ex_resolver_protected) ''/data/protected.db'' ''protected'' = NoAccess \<and>
   Resolve G ex_resolver_protected (Some ex_anon) ''/data/protected.db'' ''protected'' = ReadOnly \<and>
   Resolve G ex_resolver_protected None ''/data/protected.db'' ''protected'' = ReadOnly"
proof -
  have m: "matchPattern G ''protected'' ''/data/protected.db'' ''protected''"
    by (simp add: matchPattern_def TrimSpace_protected Let_def)
  then have r: "matchRules G (PublicRules ex_resolver_protected) ''/data/protected.db'' ''protected'' = NoAccess"
    by (simp add: ex_resolver_protected_def)
  then have p: "resolve_public G ex_resolver_protected ''/data/protected.db'' ''protected'' = ReadOnly"
    by (simp add: resolve_public_NoAccess) (simp add: ex_resolver_protected_def)
  then show ?thesis using m r
    by (simp add: Resolve_def ex_anon_def)
qed

text \<open>
  C4. \<open>TryLock\<close> in every lock-manager state: with an entry for the path under the same
  session id it succeeds and the state is unchanged; with an entry under another session id
  it fails with the error carrying that entry's holder and time, and the state is unchanged;
  with no entry it succeeds and the new state has the requester's entry at that path and is
  otherwise as before. The table is a map, so a path never has two entries.
\<close>

theorem TryLock_outcomes:
  "(\<forall>info. locks lm dbPath = Some info \<and> SessionID info = sessionID \<longrightarrow>
      TryLock lm dbPath holder sessionID now = (None, lm)) \<and>
   (\<forall>info. locks lm dbPath = Some info \<and> SessionID info \<noteq> sessionID \<longrightarrow>
      TryLock lm dbPath holder sessionID now =
        (Some \<lparr>err_Database = dbPath, err_HeldBy = HeldBy info, err_Since = Since info\<rparr>, lm)) \<and>
   (locks lm dbPath = None \<longrightarrow>
      (\<exists>lm'. TryLock lm dbPath holder sessionID now = (None, lm') \<and>
         locks lm' dbPath = Some \<lparr>HeldBy = holder, SessionID = sessionID, Since = now\<rparr> \<and>
         dom (locks lm') = insert dbPath (dom (locks lm)) \<and>
         (\<forall>p. p \<noteq> dbPath \<longrightarrow> locks lm' p = locks lm p)))"
  by (auto simp: TryLock_def)

theorem TryLock_outcomes_witness:
  "locks ex_locked ''/d/x.db'' = Some \<lparr>HeldBy = ''alice'', SessionID = ''s1'', Since = 5\<rparr> \<and>
   TryLock ex_locked ''/d/x.db'' ''alice'' ''s1'' 7 = (None, ex_locked) \<and>
   TryLock ex_locked ''/d/x.db'' ''bob'' ''s2'' 9 =
     (Some \<lparr>err_Database = ''/d/x.db'', err_HeldBy = ''alice'', err_Since = 5\<rparr>, ex_locked) \<and>
   locks NewLockManager ''/d/x.db'' = None \<and>
   (\<exists>lm'. TryLock NewLockManager ''/d/x.db'' ''alice'' ''s1'' 5 = (None, lm') \<and>
      locks lm' ''/d/x.db'' = Some \<lparr>HeldBy = ''alice'', SessionID = ''s1'', Since = 5\<rparr> \<and>
      dom (locks lm') = {''/d/x.db''})"
proof -
  have held: "locks ex_locked ''/d/x.db'' = Some \<lparr>HeldBy = ''alice'', SessionID = ''s1'', Since = 5\<rparr>"
    by (simp add: ex_locked_def)
  have free: "locks NewLockManager ''/d/x.db'' = None"
    by (simp add: NewLockManager_def)
  have dom0: "dom (locks NewLockManager) = {}"
    by (simp add: NewLockManager_def)
  from held TryLock_outcomes [of ex_locked "''/d/x.db''" "''s1''" "''alice''" 7]
  have same: "TryLock ex_locked ''/d/x.db'' ''alice'' ''s1'' 7 = (None, ex_locked)"
    by simp
  from held TryLock_outcomes [of ex_locked "''/d/x.db''" "''s2''" "''bob''" 9]
  have other: "TryLock ex_locked ''/d/x.db'' ''bob'' ''s2'' 9 =
     (Some \<lparr>err_Database = ''/d/x.db'', err_HeldBy = ''alice'', err_Since = 5\<rparr>, ex_locked)"
    by simp
  from free dom0 TryLock_outcomes [of NewLockManager "''/d/x.db''" "''s1''" "''alice''" 5]
  have fresh: "\<exists>lm'. TryLock NewLockManager ''/d/x.db'' ''alice'' ''s1'' 5 = (None, lm') \<and>
      locks lm' ''/d/x.db'' = Some \<lparr>HeldBy = ''alice'', SessionID = ''s1'', Since = 5\<rparr> \<and>
      dom (locks lm') = {''/d/x.db''}"
    by auto
  from held same other free fresh show ?thesis by blast
qed


text \<open>
  C5. \<open>cmdDelete\<close> with neither the confirm nor the force flag among its arguments, or
  with the where flag absent or empty, ends with exit code 1, and the manager is returned
  as it was (no connection opened, no statement handed to the engine) and nothing is written
  to the audit log. A flag is present as the command reads it: \<open>HasFlag\<close> accepts
  \<open>--confirm\<close> and \<open>-confirm\<close>, \<open>GetFlag\<close> takes the value of the first \<open>--where=\<close> or
  \<open>-where=\<close> argument.
\<close>

theorem cmdDelete_fails_closed:
  assumes "(\<not> HasFlag c ''confirm'' \<and> \<not> HasFlag c ''force'') \<or> GetFlag c ''where'' = []"
  shows "\<exists>c'. cmdDelete E G h m k1 k2 k3 c = (c', m, []) \<and> exitCode c' = 1"
proof -
  have flags: "HasFlag (Exit c 1) n = HasFlag c n" "GetFlag (Exit c 1) n = GetFlag c n" for n
    by (simp_all add: HasFlag_def GetFlag_def Exit_def)
  show ?thesis using assms
    by (auto simp: cmdDelete_def RequireWrite_def Exit_def Let_def flags
             split: list.splits prod.splits bool.splits if_splits)
qed

text \<open>
  C10. The commands \<open>sessions\<close>, \<open>history\<close>, \<open>audit\<close> and \<open>reload-config\<close> look only at
  the user's \<open>IsAdmin\<close> flag: when the user is absent or the flag is false each of them
  ends with exit code 1, also for a user whose name is among the resolver's admins and who
  therefore resolves to \<open>Admin\<close> on every database.
\<close>

theorem admin_commands_check_only_the_flag:
  assumes "\<forall>u. User c = Some u \<longrightarrow> \<not> IsAdmin u"
  shows "exitCode (cmdSessions c) = 1 \<and> exitCode (cmdHistory h fetch_ok c) = 1 \<and>
         exitCode (cmdAudit h fetch_ok c) = 1 \<and> exitCode (cmdReloadConfig c) = 1 \<and>
         (\<forall>u. User c = Some u \<and> \<not> IsAnonymous u \<and> Admins r (Name u) \<longrightarrow>
            (\<forall>dbPath dbAlias. Resolve G r (User c) dbPath dbAlias = Admin))"
proof -
  have "RequireAdmin c = (False, Exit c 1)"
    using assms by (auto simp: RequireAdmin_def split: option.splits)
  then show ?thesis
    by (auto simp: cmdSessions_def cmdHistory_def cmdAudit_def cmdReloadConfig_def Exit_def
          Resolve_def)
qed

section \<open>The guards at concrete inputs\<close>

lemma TrimSpace_test: "TrimSpace ''test'' = ''test''"
  by (simp add: TrimSpace_def ascii_space_def space2_def space3_def)

lemma ex_GetDatabase_test:
  "GetDatabase (discovery ex_manager_test) ks ''test'' =
     (if ''/data/test.db'' \<in> set ks then Some ex_db_test else None)"
  by (induction ks)
     (auto simp: GetDatabase_def ex_manager_test_def range_entries_Nil range_entries_Cons
        ex_db_test_def)


lemma ex_level_test:
  "GetAccessLevel G ex_manager_test [''/data/test.db''] user ''test''
     = Resolve G ex_resolver_reader user ''/data/test.db'' ''test''"
proof -
  have "GetAccessLevel G ex_manager_test [''/data/test.db''] user ''test''
          = Resolve G (resolver ex_manager_test) user (db_Path ex_db_test) (db_Alias ex_db_test)"
    by (simp add: GetAccessLevel_def ex_GetDatabase_test)
  then show ?thesis by (simp add: ex_manager_test_def ex_db_test_def)
qed

lemma ex_reader_level:
  "GetAccessLevel G ex_manager_test [''/data/test.db''] (Some (ex_user ''reader'' False)) ''test'' = ReadOnly"
  by (simp add: ex_level_test Resolve_def ex_user_def ex_resolver_reader_def matchPattern_def
        TrimSpace_test Let_def)

lemma ex_root_level:
  "GetAccessLevel G ex_manager_test [''/data/test.db''] (Some (ex_user ''root'' b)) ''test'' = Admin"
  by (simp add: ex_level_test Resolve_def ex_user_def ex_resolver_reader_def)


theorem cmdDelete_fails_closed_witness:
  "\<not> HasFlag (ex_context [''test'', ''users'', ''--where=id=1''] (Some (ex_user ''root'' True))) ''confirm'' \<and>
   \<not> HasFlag (ex_context [''test'', ''users'', ''--where=id=1''] (Some (ex_user ''root'' True))) ''force'' \<and>
   (\<exists>c'. cmdDelete ex_engine exact_glob ex_handler ex_manager_test [''/data/test.db'']
            [''/data/test.db''] [''/data/test.db'']
            (ex_context [''test'', ''users'', ''--where=id=1''] (Some (ex_user ''root'' True)))
          = (c', ex_manager_test, []) \<and> exitCode c' = 1) \<and>
   GetFlag (ex_context [''test'', ''users'', ''--confirm''] (Some (ex_user ''root'' True))) ''where'' = [] \<and>
   (\<exists>c'. cmdDelete ex_engine exact_glob ex_handler ex_manager_test [''/data/test.db'']
            [''/data/test.db''] [''/data/test.db'']
            (ex_context [''test'', ''users'', ''--confirm''] (Some (ex_user ''root'' True)))
          = (c', ex_manager_test, []) \<and> exitCode c' = 1)"
proof -
  have nc: "\<not> HasFlag (ex_context [''test'', ''users'', ''--where=id=1''] (Some (ex_user ''root'' True))) ''confirm''"
    by (simp add: HasFlag_def ex_context_def)
  have nf: "\<not> HasFlag (ex_context [''test'', ''users'', ''--where=id=1''] (Some (ex_user ''root'' True))) ''force''"
    by (simp add: HasFlag_def ex_context_def)
  have nw: "GetFlag (ex_context [''test'', ''users'', ''--confirm''] (Some (ex_user ''root'' True))) ''where'' = []"
    by (simp add: GetFlag_def ex_context_def)
  from nc nf have h1:
    "(\<not> HasFlag (ex_context [''test'', ''users'', ''--where=id=1''] (Some (ex_user ''root'' True))) ''confirm'' \<and>
      \<not> HasFlag (ex_context [''test'', ''users'', ''--where=id=1''] (Some (ex_user ''root'' True))) ''force'') \<or>
     GetFlag (ex_context [''test'', ''users'', ''--where=id=1''] (Some (ex_user ''root'' True))) ''where'' = []"
    by blast
  from nw have h2:
    "(\<not> HasFlag (ex_context [''test'', ''users'', ''--confirm''] (Some (ex_user ''root'' True))) ''confirm'' \<and>
      \<not> HasFlag (ex_context [''test'', ''users'', ''--confirm''] (Some (ex_user ''root'' True))) ''force'') \<or>
     GetFlag (ex_context [''test'', ''users'', ''--confirm''] (Some (ex_user ''root'' True))) ''where'' = []"
    by blast
  from nc nf nw
    cmdDelete_fails_closed [OF h1, of ex_engine exact_glob ex_handler ex_manager_test
      "[''/data/test.db'']" "[''/data/test.db'']" "[''/data/test.db'']"]
    cmdDelete_fails_closed [OF h2, of ex_engine exact_glob ex_handler ex_manager_test
      "[''/data/test.db'']" "[''/data/test.db'']" "[''/data/test.db'']"]
  show ?thesis by blast
qed

theorem admin_commands_check_only_the_flag_witness:
  "User (ex_context [] (Some (ex_user ''root'' False))) = Some (ex_user ''root'' False) \<and>
   \<not> IsAdmin (ex_user ''root'' False) \<and>
   \<not> IsAnonymous (ex_user ''root'' False) \<and>
   Admins ex_resolver_admins (Name (ex_user ''root'' False)) \<and>
   exitCode (cmdSessions (ex_context [] (Some (ex_user ''root'' False)))) = 1 \<and>
   exitCode (cmdHistory ex_handler True (ex_context [] (Some (ex_user ''root'' False)))) = 1 \<and>
   exitCode (cmdAudit ex_handler True (ex_context [] (Some (ex_user ''root'' False)))) = 1 \<and>
   exitCode (cmdReloadConfig (ex_context [] (Some (ex_user ''root'' False)))) = 1 \<and>
   Resolve exact_glob ex_resolver_admins (User (ex_context [] (Some (ex_user ''root'' False))))
     ''/d/x.db'' ''x'' = Admin"
proof -
  have u: "User (ex_context [] (Some (ex_user ''root'' False))) = Some (ex_user ''root'' False)"
    by (simp add: ex_context_def)
  have f: "\<not> IsAdmin (ex_user ''root'' False)" by (simp add: ex_user_def)
  have a: "\<not> IsAnonymous (ex_user ''root'' False)" by (simp add: ex_user_def)
  have n: "Admins ex_resolver_admins (Name (ex_user ''root'' False))"
    by (simp add: ex_user_def ex_resolver_admins_def)
  from u f have h: "\<forall>v. User (ex_context [] (Some (ex_user ''root'' False))) = Some v \<longrightarrow> \<not> IsAdmin v"
    by simp
  from u f a n
    admin_commands_check_only_the_flag [OF h, of ex_handler True ex_resolver_admins exact_glob]
  show ?thesis by blast
qed

lemma cmdSessions_admin_example:
  "exitCode (cmdSessions (ex_context [] (Some (ex_user ''root'' True)))) = 0"
  by (simp add: cmdSessions_def RequireAdmin_def ex_context_def ex_user_def)

lemma ExecuteQuery_read_example:
  "ExecuteQuery ex_engine exact_glob ex_manager_test [''/data/test.db''] [''/data/test.db'']
       [''/data/test.db''] [''/data/test.db''] 0 ''test'' (Some (ex_user ''reader'' False))
       ''s1'' ''SELECT 1''
     = (Inr 1, ex_manager_test\<lparr>
          connections := [''/data/test.db'' \<mapsto> \<lparr>conn_Path = ''/data/test.db'', conn_ReadOnly = True\<rparr>],
          engine_log := [EngineOpen ''/data/test.db'' True, EngineStatement ''/data/test.db'' ''SELECT 1'']\<rparr>)"
proof -
  have ro: "isReadOnlyQuery ''SELECT 1''"
    by (simp add: isReadOnlyQuery_def trimToUpper_def hasPrefix_def upper_byte_def query_space_def)
  have found: "GetDatabase (discovery ex_manager_test) [''/data/test.db''] ''test'' = Some ex_db_test"
    by (simp add: ex_GetDatabase_test)
  have oc: "OpenConnection ex_engine exact_glob ex_manager_test [''/data/test.db''] [''/data/test.db'']
              ''test'' (Some (ex_user ''reader'' False))
            = (Inr \<lparr>conn_Path = ''/data/test.db'', conn_ReadOnly = True\<rparr>,
               ex_manager_test\<lparr>
                 connections := [''/data/test.db'' \<mapsto> \<lparr>conn_Path = ''/data/test.db'', conn_ReadOnly = True\<rparr>],
                 engine_log := [EngineOpen ''/data/test.db'' True]\<rparr>)"
    unfolding OpenConnection_def found ex_reader_level
    by (simp add: CanRead_def CanWrite_def Open_def ex_engine_def ex_manager_test_def
          ex_db_test_def)
  show ?thesis
    unfolding ExecuteQuery_def found oc
    by (simp add: ro Query_def ex_engine_def)
qed

lemma cmdDelete_guarded_example:
  "cmdDelete ex_engine exact_glob ex_handler ex_manager_test [''/data/test.db'']
       [''/data/test.db''] [''/data/test.db'']
       (ex_context [''test'', ''users'', ''--where=id=1'', ''--confirm''] (Some (ex_user ''root'' True)))
     = (ex_context [''test'', ''users'', ''--where=id=1'', ''--confirm''] (Some (ex_user ''root'' True)),
        ex_manager_test\<lparr>
          connections := [''/data/test.db'' \<mapsto> \<lparr>conn_Path = ''/data/test.db'', conn_ReadOnly = False\<rparr>],
          engine_log := [EngineOpen ''/data/test.db'' False,
                         EngineStatement ''/data/test.db''
                           (''DELETE FROM '' @ quoteIdentifier ''users'' @ '' WHERE id=1'')]\<rparr>,
        [(''s1'', ''DELETE'', ''test'', ''users'')])"
proof -
  let ?c = "ex_context [''test'', ''users'', ''--where=id=1'', ''--confirm''] (Some (ex_user ''root'' True))"
  have pos: "GetPositionalArgs ?c = [''test'', ''users'']"
    by (simp add: GetPositionalArgs_def ex_context_def)
  have usr: "User ?c = Some (ex_user ''root'' True)"
    by (simp add: ex_context_def)
  have rw: "RequireWrite exact_glob ex_manager_test [''/data/test.db''] ?c ''test'' = (True, ?c)"
    by (simp add: RequireWrite_def usr ex_root_level CanWrite_def)
  have cf: "HasFlag ?c ''confirm''"
    by (simp add: HasFlag_def ex_context_def)
  have wh: "GetFlag ?c ''where'' = ''id=1''"
    by (simp add: GetFlag_def ex_context_def)
  have sid: "GetSessionID ?c = ''s1''"
    by (simp add: GetSessionID_def ex_context_def)
  have found: "GetDatabase (discovery ex_manager_test) [''/data/test.db''] ''test'' = Some ex_db_test"
    by (simp add: ex_GetDatabase_test)
  have oc: "OpenConnection ex_engine exact_glob ex_manager_test [''/data/test.db''] [''/data/test.db'']
              ''test'' (Some (ex_user ''root'' True))
            = (Inr \<lparr>conn_Path = ''/data/test.db'', conn_ReadOnly = False\<rparr>,
               ex_manager_test\<lparr>
                 connections := [''/data/test.db'' \<mapsto> \<lparr>conn_Path = ''/data/test.db'', conn_ReadOnly = False\<rparr>],
                 engine_log := [EngineOpen ''/data/test.db'' False]\<rparr>)"
    unfolding OpenConnection_def found ex_root_level
    by (simp add: CanRead_def CanWrite_def Open_def ex_engine_def ex_manager_test_def
          ex_db_test_def)
  show ?thesis
    by (simp add: cmdDelete_def Let_def pos rw cf wh usr oc sid)
       (simp add: Delete_def Query_def ex_engine_def ex_handler_def sid)
qed

section \<open>Properties of discovery\<close>

lemma store_found_Nil: "store_found m [] = m"
  by (simp add: store_found_def)

lemma store_found_Cons: "store_found m (db # found) = store_found (m(db_Path db \<mapsto> db)) found"
  by (simp add: store_found_def)

lemma store_found_keyed: "path_keyed m \<Longrightarrow> path_keyed (store_found m found)"
proof (induction found arbitrary: m)
  case Nil
  then show ?case by (simp add: store_found_Nil)
next
  case (Cons db found)
  from Cons.prems have "path_keyed (m(db_Path db \<mapsto> db))"
    by (simp add: path_keyed_def)
  then have "path_keyed (store_found (m(db_Path db \<mapsto> db)) found)"
    by (rule Cons.IH)
  then show ?case by (simp only: store_found_Cons)
qed

lemma store_found_dom: "dom (store_found m found) = dom m \<union> db_Path ` set found"
proof (induction found arbitrary: m)
  case Nil
  then show ?case by (simp add: store_found_Nil)
next
  case (Cons db found)
  have "dom (store_found (m(db_Path db \<mapsto> db)) found)
          = dom (m(db_Path db \<mapsto> db)) \<union> db_Path ` set found"
    by (rule Cons.IH)
  then show ?case by (auto simp: store_found_Cons)
qed

lemma collect_from_Nil: "collect_from acc [] = acc"
  by (simp add: collect_from_def)

lemma collect_from_Cons:
  "collect_from acc (f # founds) =
     collect_from (case f of None \<Rightarrow> acc | Some found \<Rightarrow> store_found acc found) founds"
  by (simp add: collect_from_def)

lemma collect_from_keyed: "path_keyed acc \<Longrightarrow> path_keyed (collect_from acc founds)"
proof (induction founds arbitrary: acc)
  case Nil
  then show ?case by (simp add: collect_from_Nil)
next
  case (Cons f founds)
  then show ?case
    by (cases f) (simp_all add: collect_from_Cons store_found_keyed)
qed

lemma collect_from_dom:
  "dom (collect_from acc founds) = dom acc \<union> db_Path ` set (found_files founds)"
proof (induction founds arbitrary: acc)
  case Nil
  then show ?case by (simp add: collect_from_Nil found_files_def)
next
  case (Cons f founds)
  show ?case
    by (cases f) (auto simp: collect_from_Cons Cons.IH store_found_dom found_files_def)
qed

lemma collect_sources_keyed: "path_keyed (collect_sources founds)"
proof -
  have "collect_sources founds = collect_from Map.empty founds"
    by (simp add: collect_sources_def collect_from_def)
  moreover have "path_keyed Map.empty" by (simp add: path_keyed_def)
  ultimately show ?thesis by (simp add: collect_from_keyed)
qed

lemma collect_sources_dom: "dom (collect_sources founds) = db_Path ` set (found_files founds)"
proof -
  have "collect_sources founds = collect_from Map.empty founds"
    by (simp add: collect_sources_def collect_from_def)
  then show ?thesis by (simp add: collect_from_dom)
qed

lemma GetDatabase_by_path: "databases d p = Some db \<Longrightarrow> GetDatabase d ks p = Some db"
  by (simp add: GetDatabase_def)

lemma GetDatabase_alias_find:
  "databases d a = None \<Longrightarrow>
   GetDatabase d ks a = find (\<lambda>db. db_Alias db = a) (GetDatabases d ks)"
  by (simp add: GetDatabase_def GetDatabases_def)

lemma GetDatabase_sound:
  assumes "GetDatabase d ks a = Some db"
  shows "db \<in> ran (databases d) \<and> (databases d a = Some db \<or> db_Alias db = a)"
proof (cases "databases d a")
  case (Some x)
  with assms have "x = db" by (simp add: GetDatabase_def)
  with Some show ?thesis by (auto simp: ran_def)
next
  case None
  with assms have "find (\<lambda>db. db_Alias db = a) (GetDatabases d ks) = Some db"
    by (simp add: GetDatabase_alias_find)
  then have "db \<in> set (GetDatabases d ks)" and al: "db_Alias db = a"
    by (auto simp: find_Some_iff)
  then obtain k where "databases d k = Some db"
    by (auto simp: set_GetDatabases)
  then have "db \<in> ran (databases d)" by (auto simp: ran_def)
  with al show ?thesis by simp
qed

lemma GetDatabase_by_alias:
  assumes "proper_order (databases d) ks" and "databases d a = None"
      and "db \<in> ran (databases d)" and "db_Alias db = a"
  shows "\<exists>db'. GetDatabase d ks a = Some db' \<and> db' \<in> ran (databases d) \<and> db_Alias db' = a"
proof -
  from assms(1,3) have "db \<in> set (GetDatabases d ks)" by (simp add: set_GetDatabases_proper)
  with assms(4) have "find (\<lambda>db. db_Alias db = a) (GetDatabases d ks) \<noteq> None"
    by (auto simp: find_None_iff)
  then obtain db' where "find (\<lambda>db. db_Alias db = a) (GetDatabases d ks) = Some db'"
    by auto
  with assms(2) have g: "GetDatabase d ks a = Some db'"
    by (simp add: GetDatabase_alias_find)
  from GetDatabase_sound [OF g] assms(2) have "db' \<in> ran (databases d)" "db_Alias db' = a"
    by auto
  with g show ?thesis by blast
qed

lemma map_fst_range_entries: "map fst (range_entries m ks) = filter (\<lambda>k. m k \<noteq> None) ks"
  by (induction ks) (auto simp: range_entries_Nil range_entries_Cons split: option.splits)

lemma distinct_range_entries_keys:
  "distinct ks \<Longrightarrow> distinct (map fst (filter P (range_entries m ks)))"
  by (simp add: distinct_map_filter map_fst_range_entries)

lemma range_entries_paths:
  assumes "path_keyed m"
  shows "map db_Path (map snd (filter P (range_entries m ks))) = map fst (filter P (range_entries m ks))"
proof -
  have "\<forall>e \<in> set (filter P (range_entries m ks)). db_Path (snd e) = fst e"
    using assms by (auto simp: set_range_entries path_keyed_def)
  then show ?thesis by simp
qed

lemma set_scan_added:
  "set (scan_added old new kn) = {db. \<exists>k \<in> set kn. new k = Some db \<and> old k = None}"
  by (force simp: scan_added_def set_range_entries)

lemma set_scan_removed:
  "set (scan_removed old new ko) = {db. \<exists>k \<in> set ko. old k = Some db \<and> new k = None}"
  by (force simp: scan_removed_def set_range_entries)

lemma scan_added_proper:
  assumes "path_keyed new" and "proper_order new kn"
  shows "set (scan_added old new kn) = {db \<in> ran new. db_Path db \<notin> dom old}"
    and "db_Path ` set (scan_added old new kn) = dom new - dom old"
    and "distinct (map db_Path (scan_added old new kn))"
proof -
  from assms(2) have kn: "set kn = dom new" "distinct kn" by (simp_all add: proper_order_def)
  show s: "set (scan_added old new kn) = {db \<in> ran new. db_Path db \<notin> dom old}"
  proof (rule set_eqI)
    fix db
    show "db \<in> set (scan_added old new kn) \<longleftrightarrow> db \<in> {db \<in> ran new. db_Path db \<notin> dom old}"
    proof
      assume "db \<in> set (scan_added old new kn)"
      then obtain k where k: "new k = Some db" "old k = None"
        by (auto simp: set_scan_added)
      with assms(1) have "db_Path db = k" by (simp add: path_keyed_def)
      with k show "db \<in> {db \<in> ran new. db_Path db \<notin> dom old}"
        by (auto simp: ran_def)
    next
      assume "db \<in> {db \<in> ran new. db_Path db \<notin> dom old}"
      then obtain k where k: "new k = Some db" and o: "db_Path db \<notin> dom old"
        by (auto simp: ran_def)
      with assms(1) have "db_Path db = k" by (simp add: path_keyed_def)
      with k o kn(1) have "k \<in> set kn" "old k = None" by auto
      with k show "db \<in> set (scan_added old new kn)"
        by (auto simp: set_scan_added)
    qed
  qed
  show "db_Path ` set (scan_added old new kn) = dom new - dom old"
  proof (rule set_eqI)
    fix p
    show "p \<in> db_Path ` set (scan_added old new kn) \<longleftrightarrow> p \<in> dom new - dom old"
    proof
      assume "p \<in> db_Path ` set (scan_added old new kn)"
      then obtain db where "db \<in> ran new" "db_Path db \<notin> dom old" "p = db_Path db"
        by (auto simp: s)
      moreover then obtain k where "new k = Some db" by (auto simp: ran_def)
      moreover with assms(1) have "db_Path db = k" by (simp add: path_keyed_def)
      ultimately show "p \<in> dom new - dom old" by auto
    next
      assume "p \<in> dom new - dom old"
      then obtain db where db: "new p = Some db" and o: "p \<notin> dom old" by auto
      with assms(1) have "db_Path db = p" by (simp add: path_keyed_def)
      with db o have "db \<in> {db \<in> ran new. db_Path db \<notin> dom old}"
        by (auto simp: ran_def)
      with \<open>db_Path db = p\<close> show "p \<in> db_Path ` set (scan_added old new kn)"
        by (auto simp: s)
    qed
  qed
  show "distinct (map db_Path (scan_added old new kn))"
    unfolding scan_added_def
    by (simp only: range_entries_paths [OF assms(1)] distinct_range_entries_keys [OF kn(2)])
qed

lemma scan_removed_as_added: "scan_removed old new ko = scan_added new old ko"
  by (simp add: scan_removed_def scan_added_def)

text \<open>
  C9. For the snapshot before a scan and the one after it, the lists the scan hands to the
  callbacks are: \<open>added\<close>, exactly the databases whose path is in the new snapshot and not
  in the old; \<open>removed\<close>, exactly those whose path is in the old and not in the new; their
  paths together are the symmetric difference of the two sets of paths, with no path listed
  twice. The callbacks run unless both lists are empty. The old snapshot is keyed by path,
  as every snapshot a scan produced is, and the two loops visit every key once.
\<close>

theorem scan_reports_symmetric_difference:
  assumes "path_keyed (databases d)"
      and "proper_order (collect_sources founds) kn"
      and "proper_order (databases d) ko"
      and "scan d founds kn ko = (d', ev)"
  shows "\<exists>added removed.
           ev = (if added \<noteq> [] \<or> removed \<noteq> [] then Some (added, removed) else None) \<and>
           set added = {db \<in> ran (databases d'). db_Path db \<notin> dom (databases d)} \<and>
           set removed = {db \<in> ran (databases d). db_Path db \<notin> dom (databases d')} \<and>
           db_Path ` set added = dom (databases d') - dom (databases d) \<and>
           db_Path ` set removed = dom (databases d) - dom (databases d') \<and>
           db_Path ` (set added \<union> set removed)
             = (dom (databases d') - dom (databases d)) \<union> (dom (databases d) - dom (databases d')) \<and>
           distinct (map db_Path added) \<and> distinct (map db_Path removed)"
proof -
  let ?old = "databases d"
  let ?new = "collect_sources founds"
  let ?A = "scan_added ?old ?new kn"
  let ?R = "scan_removed ?old ?new ko"
  from assms(4) have d': "databases d' = ?new"
    and ev: "ev = (if ?A \<noteq> [] \<or> ?R \<noteq> [] then Some (?A, ?R) else None)"
    by (auto simp: scan_def Let_def)
  have kn: "path_keyed ?new" by (rule collect_sources_keyed)
  note a = scan_added_proper [OF kn assms(2), of ?old]
  note r = scan_added_proper [OF assms(1) assms(3), of ?new, folded scan_removed_as_added]
  have u: "db_Path ` (set ?A \<union> set ?R) = (dom ?new - dom ?old) \<union> (dom ?old - dom ?new)"
    by (simp only: image_Un a(2) r(2))
  from ev a r u show ?thesis
    unfolding d' by blast
qed

text \<open>
  C8. The claim has lookup by a shared alias resolve to the first-seen discovery. The code
  keeps no order of discovery: the snapshot is a map, and \<open>GetDatabase\<close> scans it in the
  runtime's iteration order. What holds of every snapshot a scan produces: each key is the
  absolute path of the database stored under it, so a path names at most one database;
  every file the scan found is reachable by its absolute path, and so is every database of
  the snapshot, whatever the iteration order; a string that is no path of the snapshot but
  the alias of one of its databases resolves to one of the databases carrying that alias.
\<close>

theorem snapshot_lookup:
  assumes "scan d founds kn ko = (d', ev)"
  shows "path_keyed (databases d') \<and>
         (\<forall>f \<in> set (found_files founds).
            \<exists>db. GetDatabase d' ks (db_Path f) = Some db \<and> db_Path db = db_Path f) \<and>
         (\<forall>p db. databases d' p = Some db \<longrightarrow> GetDatabase d' ks p = Some db) \<and>
         (\<forall>a db. proper_order (databases d') ks \<and> databases d' a = None \<and>
                  db \<in> ran (databases d') \<and> db_Alias db = a \<longrightarrow>
            (\<exists>db'. GetDatabase d' ks a = Some db' \<and> db' \<in> ran (databases d') \<and> db_Alias db' = a))"
proof -
  from assms have d': "databases d' = collect_sources founds"
    by (auto simp: scan_def Let_def)
  have k: "path_keyed (databases d')"
    by (simp only: d' collect_sources_keyed)
  have files: "\<exists>db. GetDatabase d' ks (db_Path f) = Some db \<and> db_Path db = db_Path f"
    if "f \<in> set (found_files founds)" for f
  proof -
    from that have "db_Path f \<in> dom (databases d')"
      by (simp only: d' collect_sources_dom) (rule imageI)
    then obtain db where db: "databases d' (db_Path f) = Some db" by auto
    with k have "db_Path db = db_Path f" by (simp add: path_keyed_def)
    moreover from db have "GetDatabase d' ks (db_Path f) = Some db"
      by (rule GetDatabase_by_path)
    ultimately show ?thesis by blast
  qed
  have byp: "GetDatabase d' ks p = Some db" if "databases d' p = Some db" for p db
    using that by (rule GetDatabase_by_path)
  have al: "\<exists>db'. GetDatabase d' ks a = Some db' \<and> db' \<in> ran (databases d') \<and> db_Alias db' = a"
    if "proper_order (databases d') ks \<and> databases d' a = None \<and>
        db \<in> ran (databases d') \<and> db_Alias db = a" for a db
    using that GetDatabase_by_alias [of d' ks a db] by blast
  show ?thesis
  proof (intro conjI ballI allI impI)
    show "path_keyed (databases d')" by (rule k)
  next
    fix f assume "f \<in> set (found_files founds)"
    then show "\<exists>db. GetDatabase d' ks (db_Path f) = Some db \<and> db_Path db = db_Path f"
      by (rule files)
  next
    fix p db assume "databases d' p = Some db"
    then show "GetDatabase d' ks p = Some db" by (rule byp)
  next
    fix a db
    assume "proper_order (databases d') ks \<and> databases d' a = None \<and>
            db \<in> ran (databases d') \<and> db_Alias db = a"
    then show "\<exists>db'. GetDatabase d' ks a = Some db' \<and> db' \<in> ran (databases d') \<and> db_Alias db' = a"
      by (rule al)
  qed
qed

lemma ex_snapshot_databases:
  "databases ex_snapshot = [''/d/x.db'' \<mapsto> ex_db_a, ''/e/x.db'' \<mapsto> ex_db_b]"
  by (simp add: ex_snapshot_def scan_def collect_sources_def store_found_def Let_def
        ex_db_a_def ex_db_b_def)

text \<open>
  C8, at a concrete input: two files found in the order \<open>/d/x.db\<close>, \<open>/e/x.db\<close>, both
  with alias \<open>x\<close>. Under one iteration order of the snapshot the lookup of \<open>x\<close> answers
  the file found second, under another the file found first.
\<close>

theorem alias_lookup_follows_iteration_order:
  "found_files [Some [ex_db_a, ex_db_b]] = [ex_db_a, ex_db_b] \<and>
   db_Alias ex_db_a = ''x'' \<and> db_Alias ex_db_b = ''x'' \<and> ex_db_a \<noteq> ex_db_b \<and>
   proper_order (databases ex_snapshot) [''/e/x.db'', ''/d/x.db''] \<and>
   GetDatabase ex_snapshot [''/e/x.db'', ''/d/x.db''] ''x'' = Some ex_db_b \<and>
   proper_order (databases ex_snapshot) [''/d/x.db'', ''/e/x.db''] \<and>
   GetDatabase ex_snapshot [''/d/x.db'', ''/e/x.db''] ''x'' = Some ex_db_a"
proof -
  have f: "found_files [Some [ex_db_a, ex_db_b]] = [ex_db_a, ex_db_b]"
    by (simp add: found_files_def)
  have al: "db_Alias ex_db_a = ''x''" "db_Alias ex_db_b = ''x''" "ex_db_a \<noteq> ex_db_b"
    by (simp_all add: ex_db_a_def ex_db_b_def)
  have p: "proper_order (databases ex_snapshot) [''/e/x.db'', ''/d/x.db'']"
          "proper_order (databases ex_snapshot) [''/d/x.db'', ''/e/x.db'']"
    by (auto simp: proper_order_def ex_snapshot_databases)
  have g1: "GetDatabase ex_snapshot [''/e/x.db'', ''/d/x.db''] ''x'' = Some ex_db_b"
    by (simp add: GetDatabase_def ex_snapshot_databases range_entries_Cons range_entries_Nil al)
  have g2: "GetDatabase ex_snapshot [''/d/x.db'', ''/e/x.db''] ''x'' = Some ex_db_a"
    by (simp add: GetDatabase_def ex_snapshot_databases range_entries_Cons range_entries_Nil al)
  from f al p g1 g2 show ?thesis by blast
qed

lemma ex_snapshot_scan:
  "scan \<lparr>databases = Map.empty\<rparr> [Some [ex_db_a, ex_db_b]] [''/d/x.db'', ''/e/x.db''] []
     = (ex_snapshot, Some ([ex_db_a, ex_db_b], []))"
proof -
  have n: "collect_sources [Some [ex_db_a, ex_db_b]] = [''/d/x.db'' \<mapsto> ex_db_a, ''/e/x.db'' \<mapsto> ex_db_b]"
    by (simp add: collect_sources_def store_found_def ex_db_a_def ex_db_b_def)
  have a: "scan_added Map.empty [''/d/x.db'' \<mapsto> ex_db_a, ''/e/x.db'' \<mapsto> ex_db_b]
             [''/d/x.db'', ''/e/x.db''] = [ex_db_a, ex_db_b]"
    by (simp add: scan_added_def range_entries_Cons range_entries_Nil)
  have r: "scan_removed Map.empty [''/d/x.db'' \<mapsto> ex_db_a, ''/e/x.db'' \<mapsto> ex_db_b] [] = []"
    by (simp add: scan_removed_def range_entries_Nil)
  show ?thesis
    by (simp add: ex_snapshot_def) (simp add: scan_def n a r)
qed

theorem snapshot_lookup_witness:
  "scan \<lparr>databases = Map.empty\<rparr> [Some [ex_db_a, ex_db_b]] [''/d/x.db'', ''/e/x.db''] []
     = (ex_snapshot, Some ([ex_db_a, ex_db_b], [])) \<and>
   path_keyed (databases ex_snapshot) \<and>
   ex_db_b \<in> set (found_files [Some [ex_db_a, ex_db_b]]) \<and>
   GetDatabase ex_snapshot [''/d/x.db'', ''/e/x.db''] ''/e/x.db'' = Some ex_db_b \<and>
   proper_order (databases ex_snapshot) [''/d/x.db'', ''/e/x.db''] \<and>
   databases ex_snapshot ''x'' = None \<and>
   ex_db_b \<in> ran (databases ex_snapshot) \<and>
   (\<exists>db'. GetDatabase ex_snapshot [''/d/x.db'', ''/e/x.db''] ''x'' = Some db' \<and>
          db' \<in> ran (databases ex_snapshot) \<and> db_Alias db' = ''x'')"
proof -
  note T = snapshot_lookup [OF ex_snapshot_scan, of "[''/d/x.db'', ''/e/x.db'']"]
  have f: "ex_db_b \<in> set (found_files [Some [ex_db_a, ex_db_b]])"
    by (simp add: found_files_def)
  have p: "proper_order (databases ex_snapshot) [''/d/x.db'', ''/e/x.db'']"
    by (auto simp: proper_order_def ex_snapshot_databases)
  have n: "databases ex_snapshot ''x'' = None"
    by (simp add: ex_snapshot_databases)
  have b: "databases ex_snapshot ''/e/x.db'' = Some ex_db_b"
    by (simp add: ex_snapshot_databases)
  then have r: "ex_db_b \<in> ran (databases ex_snapshot)"
    by (rule ranI)
  have al: "db_Alias ex_db_b = ''x''" by (simp add: ex_db_b_def)
  from T have k: "path_keyed (databases ex_snapshot)" by (rule conjunct1)
  from T have t3: "\<forall>p db. databases ex_snapshot p = Some db \<longrightarrow>
                     GetDatabase ex_snapshot [''/d/x.db'', ''/e/x.db''] p = Some db"
    by (elim conjE)
  from T have t4: "\<forall>a db. proper_order (databases ex_snapshot) [''/d/x.db'', ''/e/x.db''] \<and>
                     databases ex_snapshot a = None \<and>
                     db \<in> ran (databases ex_snapshot) \<and> db_Alias db = a \<longrightarrow>
                     (\<exists>db'. GetDatabase ex_snapshot [''/d/x.db'', ''/e/x.db''] a = Some db' \<and>
                        db' \<in> ran (databases ex_snapshot) \<and> db_Alias db' = a)"
    by (elim conjE)
  from b have g: "GetDatabase ex_snapshot [''/d/x.db'', ''/e/x.db''] ''/e/x.db'' = Some ex_db_b"
    by (rule t3 [rule_format])
  have a: "\<exists>db'. GetDatabase ex_snapshot [''/d/x.db'', ''/e/x.db''] ''x'' = Some db' \<and>
          db' \<in> ran (databases ex_snapshot) \<and> db_Alias db' = ''x''"
    by (rule t4 [rule_format, of "''x''" ex_db_b]) (intro conjI p n r al)
  show ?thesis by (intro conjI ex_snapshot_scan k f g p n r a)
qed

lemma ex_rescan_databases:
  "collect_sources ex_rescan = [''/e/x.db'' \<mapsto> ex_db_b, ''/data/test.db'' \<mapsto> ex_db_test]"
  by (simp add: ex_rescan_def collect_sources_def store_found_def ex_db_b_def ex_db_test_def)

lemma ex_rescan_scan:
  "scan ex_snapshot ex_rescan [''/e/x.db'', ''/data/test.db''] [''/d/x.db'', ''/e/x.db'']
     = (\<lparr>databases = collect_sources ex_rescan\<rparr>, Some ([ex_db_test], [ex_db_a]))"
proof -
  have a: "scan_added (databases ex_snapshot) (collect_sources ex_rescan)
             [''/e/x.db'', ''/data/test.db''] = [ex_db_test]"
    by (simp add: scan_added_def range_entries_Cons range_entries_Nil ex_rescan_databases
          ex_snapshot_databases)
  have r: "scan_removed (databases ex_snapshot) (collect_sources ex_rescan)
             [''/d/x.db'', ''/e/x.db''] = [ex_db_a]"
    by (simp add: scan_removed_def range_entries_Cons range_entries_Nil ex_rescan_databases
          ex_snapshot_databases)
  have d: "ex_snapshot\<lparr>databases := collect_sources ex_rescan\<rparr> = \<lparr>databases = collect_sources ex_rescan\<rparr>"
    by simp
  show ?thesis
    by (simp only: scan_def Let_def a r d) simp
qed

theorem scan_reports_symmetric_difference_witness:
  "path_keyed (databases ex_snapshot) \<and>
   proper_order (collect_sources ex_rescan) [''/e/x.db'', ''/data/test.db''] \<and>
   proper_order (databases ex_snapshot) [''/d/x.db'', ''/e/x.db''] \<and>
   scan ex_snapshot ex_rescan [''/e/x.db'', ''/data/test.db''] [''/d/x.db'', ''/e/x.db'']
     = (\<lparr>databases = collect_sources ex_rescan\<rparr>, Some ([ex_db_test], [ex_db_a])) \<and>
   db_Path ` set [ex_db_test] = dom (collect_sources ex_rescan) - dom (databases ex_snapshot) \<and>
   db_Path ` set [ex_db_a] = dom (databases ex_snapshot) - dom (collect_sources ex_rescan)"
proof -
  have k: "path_keyed (databases ex_snapshot)"
    by (simp add: path_keyed_def ex_snapshot_databases ex_db_a_def ex_db_b_def)
  have pn: "proper_order (collect_sources ex_rescan) [''/e/x.db'', ''/data/test.db'']"
    by (auto simp: proper_order_def ex_rescan_databases)
  have po: "proper_order (databases ex_snapshot) [''/d/x.db'', ''/e/x.db'']"
    by (auto simp: proper_order_def ex_snapshot_databases)
  from scan_reports_symmetric_difference [OF k pn po ex_rescan_scan]
  obtain added removed where
    ev: "Some ([ex_db_test], [ex_db_a])
           = (if added \<noteq> [] \<or> removed \<noteq> [] then Some (added, removed) else None)"
    and a: "db_Path ` set added = dom (databases \<lparr>databases = collect_sources ex_rescan\<rparr>)
              - dom (databases ex_snapshot)"
    and r: "db_Path ` set removed = dom (databases ex_snapshot)
              - dom (databases \<lparr>databases = collect_sources ex_rescan\<rparr>)"
    by (elim exE conjE)
  from ev have eq: "added = [ex_db_test] \<and> removed = [ex_db_a]"
    by (cases "added \<noteq> [] \<or> removed \<noteq> []") simp_all
  from a eq have a': "db_Path ` set [ex_db_test]
                        = dom (collect_sources ex_rescan) - dom (databases ex_snapshot)"
    by simp
  from r eq have r': "db_Path ` set [ex_db_a]
                        = dom (databases ex_snapshot) - dom (collect_sources ex_rescan)"
    by simp
  show ?thesis by (intro conjI k pn po ex_rescan_scan a' r')
qed

end
